theory Spec2Isabelle
  imports Main "HOL-Library.Word"
begin

unbundle bit_operations_syntax

text \<open>
  A remote-attestation exchange over a serial line. The Verifier (\<^verbatim>\<open>verifier.c\<close>) sends
  a request: its counter, the digest of the software state, a nonce and an HMAC over the
  three. The Prover (\<^verbatim>\<open>prover.c\<close>) checks that the counter is new and that the HMAC
  is the one it computes itself, and answers with a report. Both take their keys and the
  digest from \<^verbatim>\<open>microvisor.c\<close>.

  The model follows the C functions one by one. Memory is a record that each function
  takes and returns; the serial line, the key files, the random device and the host's byte
  order are arguments. Not modelled: \<^verbatim>\<open>hex_dump\<close> and the \<^verbatim>\<open>printf\<close> calls other
  than the line that tells how a round ended, the \<^verbatim>\<open>termios\<close> settings of
  \<^verbatim>\<open>open_uart\<close>, and the \<^verbatim>\<open>sleep(5)\<close> between two rounds of the Verifier.
\<close>

section \<open>Bytes, buffers and the platform\<close>

type_synonym u8 = "8 word"
type_synonym u32 = "32 word"

text \<open>The size macros shared by \<^verbatim>\<open>prover.c\<close>, \<^verbatim>\<open>verifier.c\<close> and
  \<^verbatim>\<open>microvisor.c\<close>.\<close>

definition NONCE_SIZE :: nat where "NONCE_SIZE = 32"
definition OUTPUT_SIZE :: nat where "OUTPUT_SIZE = 32"
definition KEY_SIZE :: nat where "KEY_SIZE = 32"
definition COUNTER_SIZE :: nat where "COUNTER_SIZE = 4"

text \<open>\<^verbatim>\<open>#define SOFTWARE_CODE "ExampleFirmwareV1"\<close>, as the bytes that
  \<^verbatim>\<open>strlen\<close> counts.\<close>

definition SOFTWARE_CODE :: "u8 list" where
  "SOFTWARE_CODE = map (\<lambda>c. of_nat (of_char c)) ''ExampleFirmwareV1''"

text \<open>
  The counter travels as the object representation of a \<^verbatim>\<open>uint32_t\<close>:
  \<^verbatim>\<open>memcpy(hmac_input, &C_V, COUNTER_SIZE)\<close>,
  \<^verbatim>\<open>safe_uart_write(uart_fd, (uint8_t *)&C_V, COUNTER_SIZE)\<close> and
  \<^verbatim>\<open>safe_uart_read(uart_fd, (uint8_t *)&C_V, COUNTER_SIZE)\<close>. C leaves the order of
  these four bytes to the host, so the host's byte order is a parameter of the model.
\<close>

datatype byte_order = LittleEndian | BigEndian

definition le_bytes :: "u32 \<Rightarrow> u8 list" where
  "le_bytes w = [ucast w, ucast (drop_bit 8 w), ucast (drop_bit 16 w), ucast (drop_bit 24 w)]"

definition le_value :: "u8 list \<Rightarrow> u32" where
  "le_value bs =
     (case bs of
        [b0, b1, b2, b3] \<Rightarrow>
          ucast b0 OR push_bit 8 (ucast b1) OR push_bit 16 (ucast b2) OR push_bit 24 (ucast b3)
      | _ \<Rightarrow> 0)"

definition object_bytes :: "byte_order \<Rightarrow> u32 \<Rightarrow> u8 list" where
  "object_bytes bo w = (case bo of LittleEndian \<Rightarrow> le_bytes w | BigEndian \<Rightarrow> rev (le_bytes w))"

definition object_value :: "byte_order \<Rightarrow> u8 list \<Rightarrow> u32" where
  "object_value bo bs = (case bo of LittleEndian \<Rightarrow> le_value bs | BigEndian \<Rightarrow> le_value (rev bs))"

text \<open>
  What can keep a piece of the program from returning a value: \<open>Blocked\<close>, the loop of
  \<^verbatim>\<open>safe_uart_read\<close> never ends because the stream holds fewer bytes than asked for;
  \<open>Undefined\<close>, the C behaviour is undefined (a read past the end of a buffer, or an
  \<^verbatim>\<open>HMAC\<close> that does not fill its \<^verbatim>\<open>OUTPUT_SIZE\<close>-byte output).
\<close>

datatype fault = Blocked | Undefined

text \<open>
  \<^verbatim>\<open>memcmp(s1, s2, n)\<close> of the C library: the first \<open>n\<close> bytes compared as
  unsigned values, \<open>0\<close> when all are equal, otherwise the sign of the first difference.
\<close>

fun memcmp :: "u8 list \<Rightarrow> u8 list \<Rightarrow> nat \<Rightarrow> fault + int" where
  "memcmp s1 s2 0 = Inr 0"
| "memcmp (a # s1) (b # s2) (Suc n) =
     (if a = b then memcmp s1 s2 n else Inr (int (unat a) - int (unat b)))"
| "memcmp [] s2 (Suc n) = Inl Undefined"
| "memcmp s1 [] (Suc n) = Inl Undefined"

text \<open>
  \<^verbatim>\<open>HMAC(EVP_sha256(), key, KEY_SIZE, data, len, output, &len)\<close> is OpenSSL's, not this
  repository's: the keyed digest is the parameter \<open>H\<close> of every function that calls it.
  The call hands over \<^verbatim>\<open>KEY_SIZE\<close> bytes of the key, and the callers' output buffers
  hold \<^verbatim>\<open>OUTPUT_SIZE\<close> bytes.
\<close>

type_synonym hmac_fn = "u8 list \<Rightarrow> u8 list \<Rightarrow> u8 list"

definition HMAC :: "hmac_fn \<Rightarrow> u8 list \<Rightarrow> u8 list \<Rightarrow> fault + u8 list" where
  "HMAC H key d =
     (let md = H (take KEY_SIZE key) d
      in if length md = OUTPUT_SIZE then Inr md else Inl Undefined)"

section \<open>microvisor.c\<close>

text \<open>The two keys of the \<^verbatim>\<open>.secure_data\<close> section. File-scope arrays start
  all-zero.\<close>

record microvisor =
  Kauth :: "u8 list"
  Kattest :: "u8 list"

text \<open>The files a role can open: \<open>None\<close> where \<^verbatim>\<open>fopen\<close> returns \<^verbatim>\<open>NULL\<close>.\<close>

type_synonym files = "string \<Rightarrow> u8 list option"

text \<open>
  \<^verbatim>\<open>load_key_from_file\<close>: \<^verbatim>\<open>fread(key, 1, KEY_SIZE, fp)\<close> overwrites as many
  leading bytes as the file has, up to \<^verbatim>\<open>KEY_SIZE\<close>; when the file cannot be opened
  the function prints the error and returns, the buffer untouched. It returns
  \<^verbatim>\<open>void\<close> on both paths.
\<close>

definition load_key_from_file :: "files \<Rightarrow> u8 list \<Rightarrow> string \<Rightarrow> u8 list" where
  "load_key_from_file fs key filename =
     (case fs filename of
        Some content \<Rightarrow> take KEY_SIZE content @ drop (length (take KEY_SIZE content)) key
      | None \<Rightarrow> key)"

definition get_secure_key :: "'a microvisor_scheme \<Rightarrow> u8 list \<Rightarrow> u8 \<Rightarrow> u8 list" where
  "get_secure_key m key_out key_type =
     (if key_type = 0 then take KEY_SIZE (Kauth m) @ drop KEY_SIZE key_out
      else if key_type = 1 then take KEY_SIZE (Kattest m) @ drop KEY_SIZE key_out
      else key_out)"

text \<open>A local array before anything is stored in it. Every caller overwrites the whole
  array before reading it, so the content chosen here is never seen.\<close>

definition local_buffer :: "nat \<Rightarrow> u8 list" where
  "local_buffer n = replicate n 0"

definition compute_valid_software_state :: "hmac_fn \<Rightarrow> 'a microvisor_scheme \<Rightarrow> fault + u8 list" where
  "compute_valid_software_state H m =
     (let key = get_secure_key m (local_buffer KEY_SIZE) 1
      in HMAC H key SOFTWARE_CODE)"

definition initialize_keys :: "files \<Rightarrow> 'a microvisor_scheme \<Rightarrow> 'a microvisor_scheme" where
  "initialize_keys fs m =
     (let m1 = m\<lparr>Kauth := load_key_from_file fs (Kauth m) ''kauth.key''\<rparr>
      in m1\<lparr>Kattest := load_key_from_file fs (Kattest m1) ''kattest.key''\<rparr>)"

section \<open>The serial line\<close>

text \<open>
  \<^verbatim>\<open>safe_uart_read\<close> loops over \<^verbatim>\<open>read\<close> until \<open>sz\<close> bytes have arrived.
  The line is the list of bytes still to arrive: with at least \<open>sz\<close> of them the call
  returns the first \<open>sz\<close> and leaves the others; with fewer it never returns.
\<close>

definition safe_uart_read :: "u8 list \<Rightarrow> nat \<Rightarrow> fault + (u8 list \<times> u8 list)" where
  "safe_uart_read line sz =
     (if sz \<le> length line then Inr (take sz line, drop sz line) else Inl Blocked)"

text \<open>\<^verbatim>\<open>safe_uart_write\<close> loops over \<^verbatim>\<open>write\<close> until the \<open>sz\<close> bytes of
  the buffer are out: the bytes written so far, extended.\<close>

definition safe_uart_write :: "u8 list \<Rightarrow> u8 list \<Rightarrow> nat \<Rightarrow> u8 list" where
  "safe_uart_write written buffer sz = written @ take sz buffer"

text \<open>
  \<^verbatim>\<open>open_uart\<close>: the descriptor of the pseudo-terminal, or \<open>-1\<close> when
  \<^verbatim>\<open>open\<close> fails. The devices that can be opened are a table from path to descriptor.
\<close>

type_synonym devices = "string \<Rightarrow> int option"

definition open_uart :: "devices \<Rightarrow> string \<Rightarrow> int" where
  "open_uart devs device = (case devs device of None \<Rightarrow> - 1 | Some fd \<Rightarrow> fd)"

section \<open>prover.c\<close>

record prover = microvisor +
  C_P :: u32

text \<open>The three lines a round of the Prover can print about its request.\<close>

datatype prover_log = Rejecting_request | Attestation_SUCCESS | Attestation_FAILED

definition compute_prover_hmac ::
  "hmac_fn \<Rightarrow> byte_order \<Rightarrow> 'a microvisor_scheme \<Rightarrow> u32 \<Rightarrow> u8 list \<Rightarrow> fault + u8 list" where
  "compute_prover_hmac H bo m C_V nonce =
     (let key = get_secure_key m (local_buffer KEY_SIZE) 0
      in case compute_valid_software_state H m of
           Inl f \<Rightarrow> Inl f
         | Inr valid_state \<Rightarrow>
             (let hmac_input =
                    take COUNTER_SIZE (object_bytes bo C_V) @ take KEY_SIZE valid_state
                      @ take NONCE_SIZE nonce
              in HMAC H key hmac_input))"

text \<open>
  One pass through the body of the \<^verbatim>\<open>while (1)\<close> of \<^verbatim>\<open>main\<close>: what the round
  leaves in memory, the bytes it wrote to the line, the line it printed and the bytes
  still to arrive.
\<close>

record prover_step =
  mem :: prover
  written :: "u8 list"
  printed :: prover_log
  line :: "u8 list"

definition prover_round ::
  "hmac_fn \<Rightarrow> byte_order \<Rightarrow> prover \<Rightarrow> u8 list \<Rightarrow> fault + prover_step" where
  "prover_round H bo m l0 =
     (case safe_uart_read l0 COUNTER_SIZE of
        Inl f \<Rightarrow> Inl f
      | Inr (C_V_bytes, l1) \<Rightarrow>
     (case safe_uart_read l1 KEY_SIZE of
        Inl f \<Rightarrow> Inl f
      | Inr (valid_state, l2) \<Rightarrow>
     (case safe_uart_read l2 NONCE_SIZE of
        Inl f \<Rightarrow> Inl f
      | Inr (nonce, l3) \<Rightarrow>
     (case safe_uart_read l3 OUTPUT_SIZE of
        Inl f \<Rightarrow> Inl f
      | Inr (received_hmac, l4) \<Rightarrow>
     (let C_V = object_value bo C_V_bytes
      in if C_P m \<ge> C_V then
           (let report = replicate (1 + OUTPUT_SIZE) 0
            in Inr \<lparr>mem = m, written = safe_uart_write [] report (1 + OUTPUT_SIZE),
                     printed = Rejecting_request, line = l4\<rparr>)
         else
           (case compute_prover_hmac H bo m C_V nonce of
              Inl f \<Rightarrow> Inl f
            | Inr expected_hmac \<Rightarrow>
           (case memcmp received_hmac expected_hmac OUTPUT_SIZE of
              Inl f \<Rightarrow> Inl f
            | Inr c \<Rightarrow>
                if c = 0 then
                  (let m' = m\<lparr>C_P := C_V\<rparr>
                   in case compute_prover_hmac H bo m' (C_P m') nonce of
                        Inl f \<Rightarrow> Inl f
                      | Inr final_hmac \<Rightarrow>
                          (let report = 1 # final_hmac
                           in Inr \<lparr>mem = m', written = safe_uart_write [] report (1 + OUTPUT_SIZE),
                                    printed = Attestation_SUCCESS, line = l4\<rparr>))
                else
                  Inr \<lparr>mem = m, written = [], printed = Attestation_FAILED, line = l4\<rparr>)))))))"

text \<open>
  The \<^verbatim>\<open>while (1)\<close> of a role never leaves: the role goes round until a
  \<^verbatim>\<open>safe_uart_read\<close> finds the line short, and waits there for good. A run is what
  it has done by then: its memory, all it wrote to the line and the lines it printed.
\<close>

record ('m, 'p) run =
  final :: 'm
  sent :: "u8 list"
  prints :: "'p list"
  stopped :: fault

lemma prover_round_line:
  assumes "prover_round H bo m l0 = Inr r"
  shows "length (line r) < length l0"
  using assms
  by (auto simp: prover_round_def safe_uart_read_def COUNTER_SIZE_def Let_def
           split: if_splits sum.splits)

function prover_loop ::
  "hmac_fn \<Rightarrow> byte_order \<Rightarrow> prover \<Rightarrow> u8 list \<Rightarrow> u8 list \<Rightarrow> prover_log list \<Rightarrow> (prover, prover_log) run" where
  "prover_loop H bo m l out pr =
     (case prover_round H bo m l of
        Inl f \<Rightarrow> \<lparr>final = m, sent = out, prints = pr, stopped = f\<rparr>
      | Inr r \<Rightarrow> prover_loop H bo (mem r) (line r) (out @ written r) (pr @ [printed r]))"
  by pat_completeness auto
termination
  by (relation "measure (\<lambda>(H, bo, m, l, out, pr). length l)") (auto dest: prover_round_line)

text \<open>Memory as the program finds it at start: zeroed keys, \<^verbatim>\<open>C_P = 0\<close>.\<close>

definition prover_start :: prover where
  "prover_start = \<lparr>Kauth = replicate KEY_SIZE 0, Kattest = replicate KEY_SIZE 0, C_P = 0\<rparr>"

text \<open>What \<^verbatim>\<open>main\<close> comes to: it returns a status, or it is in its loop for good.\<close>

datatype 'a outcome = Returned int | Serving 'a

definition prover_main ::
  "hmac_fn \<Rightarrow> byte_order \<Rightarrow> files \<Rightarrow> devices \<Rightarrow> u8 list \<Rightarrow> (prover, prover_log) run outcome" where
  "prover_main H bo fs devs l =
     (let m = initialize_keys fs prover_start;
          uart_fd = open_uart devs ''/dev/pts/8''
      in if uart_fd = - 1 then Returned (- 1)
         else Serving (prover_loop H bo m l [] []))"

section \<open>verifier.c\<close>

record verifier = microvisor +
  C_V :: u32

datatype verifier_log = Attestation_SUCCESSFUL | Report_FAILED

definition compute_verifier_hmac ::
  "hmac_fn \<Rightarrow> byte_order \<Rightarrow> verifier \<Rightarrow> u8 list \<Rightarrow> fault + u8 list" where
  "compute_verifier_hmac H bo m nonce =
     (let key = get_secure_key m (local_buffer KEY_SIZE) 0
      in case compute_valid_software_state H m of
           Inl f \<Rightarrow> Inl f
         | Inr valid_state \<Rightarrow>
             (let temp_CV = C_V m;
                  hmac_input =
                    take COUNTER_SIZE (object_bytes bo temp_CV) @ take KEY_SIZE valid_state
                      @ take NONCE_SIZE nonce
              in HMAC H key hmac_input))"

text \<open>
  \<^verbatim>\<open>generate_nonce\<close> reads \<^verbatim>\<open>NONCE_SIZE\<close> bytes of \<^verbatim>\<open>/dev/urandom\<close>. The
  device is the sequence of bytes it will give; \<open>pos\<close> counts those already taken.
\<close>

type_synonym urandom = "nat \<Rightarrow> u8"

definition generate_nonce :: "urandom \<Rightarrow> nat \<Rightarrow> u8 list" where
  "generate_nonce rnd pos = map rnd [pos ..< pos + NONCE_SIZE]"

text \<open>
  The first half of the loop body of \<^verbatim>\<open>main\<close>, down to the last
  \<^verbatim>\<open>safe_uart_write\<close>: the memory it leaves and the bytes it wrote.
\<close>

definition verifier_send_request ::
  "hmac_fn \<Rightarrow> byte_order \<Rightarrow> verifier \<Rightarrow> urandom \<Rightarrow> nat \<Rightarrow> fault + (verifier \<times> u8 list)" where
  "verifier_send_request H bo m rnd pos =
     (let nonce = generate_nonce rnd pos;
          m' = m\<lparr>C_V := C_V m + 1\<rparr>
      in case compute_verifier_hmac H bo m' nonce of
           Inl f \<Rightarrow> Inl f
         | Inr hmac \<Rightarrow>
             (let w1 = safe_uart_write [] (object_bytes bo (C_V m')) COUNTER_SIZE
              in case compute_valid_software_state H m' of
                   Inl f \<Rightarrow> Inl f
                 | Inr valid_state \<Rightarrow>
                     (let w2 = safe_uart_write w1 valid_state KEY_SIZE;
                          w3 = safe_uart_write w2 nonce NONCE_SIZE;
                          w4 = safe_uart_write w3 hmac OUTPUT_SIZE
                      in Inr (m', w4))))"

text \<open>The second half: the report is read whole, and its first byte decides.\<close>

definition verifier_read_report :: "u8 list \<Rightarrow> fault + (verifier_log \<times> u8 list)" where
  "verifier_read_report l =
     (case safe_uart_read l (1 + OUTPUT_SIZE) of
        Inl f \<Rightarrow> Inl f
      | Inr (report, l') \<Rightarrow>
          Inr (if report ! 0 = 1 then Attestation_SUCCESSFUL else Report_FAILED, l'))"

lemma verifier_read_report_line:
  assumes "verifier_read_report l = Inr (v, l')"
  shows "length l' < length l"
  using assms
  by (auto simp: verifier_read_report_def safe_uart_read_def split: if_splits)

function verifier_loop ::
  "hmac_fn \<Rightarrow> byte_order \<Rightarrow> verifier \<Rightarrow> urandom \<Rightarrow> nat \<Rightarrow> u8 list \<Rightarrow> u8 list
     \<Rightarrow> verifier_log list \<Rightarrow> (verifier, verifier_log) run" where
  "verifier_loop H bo m rnd pos l out pr =
     (case verifier_send_request H bo m rnd pos of
        Inl f \<Rightarrow> \<lparr>final = m, sent = out, prints = pr, stopped = f\<rparr>
      | Inr (m', request) \<Rightarrow>
          (case verifier_read_report l of
             Inl f \<Rightarrow> \<lparr>final = m', sent = out @ request, prints = pr, stopped = f\<rparr>
           | Inr (v, l') \<Rightarrow>
               verifier_loop H bo m' rnd (pos + NONCE_SIZE) l' (out @ request) (pr @ [v])))"
  by pat_completeness auto
termination
  by (relation "measure (\<lambda>(H, bo, m, rnd, pos, l, out, pr). length l)")
     (auto dest: verifier_read_report_line)

definition verifier_start :: verifier where
  "verifier_start = \<lparr>Kauth = replicate KEY_SIZE 0, Kattest = replicate KEY_SIZE 0, C_V = 0\<rparr>"

definition verifier_main ::
  "hmac_fn \<Rightarrow> byte_order \<Rightarrow> files \<Rightarrow> devices \<Rightarrow> urandom \<Rightarrow> u8 list
     \<Rightarrow> (verifier, verifier_log) run outcome" where
  "verifier_main H bo fs devs rnd l =
     (let m = initialize_keys fs verifier_start;
          uart_fd = open_uart devs ''/dev/pts/7''
      in if uart_fd = - 1 then Returned (- 1)
         else Serving (verifier_loop H bo m rnd 0 l [] []))"

section \<open>Concrete instances\<close>

text \<open>
  A keyed digest of the right shape to run the model on concrete inputs: every byte of the
  key (padded to 32 bytes) plus the sum of the bytes of the message.
\<close>

definition demo_mac :: hmac_fn where
  "demo_mac key d = take 32 (map (\<lambda>b. b + sum_list d) (key @ replicate 32 0))"

definition demo_urandom :: urandom where
  "demo_urandom k = of_nat k"

definition no_files :: files where
  "no_files name = None"

definition pts :: devices where
  "pts device = Some 3"

text \<open>
  The first request of a Verifier that starts with zeroed keys and \<^verbatim>\<open>C_V = 0\<close> on a
  little-endian host, under \<open>demo_mac\<close> and \<open>demo_urandom\<close>: counter 1, the digest,
  the nonce \<open>0, 1, \<dots>, 31\<close> and the proof.
\<close>

definition demo_request :: "u8 list" where
  "demo_request = [1, 0, 0, 0] @ replicate 32 144 @ map of_nat [0 ..< 32] @ replicate 32 241"

section \<open>Bytes and comparison\<close>

lemmas sizes = NONCE_SIZE_def OUTPUT_SIZE_def KEY_SIZE_def COUNTER_SIZE_def

lemma le_value_le_bytes: "le_value (le_bytes w) = w"
proof -
  let ?v = "ucast (ucast w :: u8) OR push_bit 8 (ucast (ucast (drop_bit 8 w) :: u8))
          OR push_bit 16 (ucast (ucast (drop_bit 16 w) :: u8))
          OR push_bit 24 (ucast (ucast (drop_bit 24 w) :: u8)) :: u32"
  have "?v = w"
  proof (rule bit_word_eqI)
    fix k
    assume k: "k < LENGTH(32)"
    consider "k < 8" | "8 \<le> k" "k < 16" | "16 \<le> k" "k < 24" | "24 \<le> k" "k < 32"
      using k by fastforce
    then show "bit ?v k = bit w k"
      by cases (auto simp: bit_simps)
  qed
  then show ?thesis
    by (simp add: le_value_def le_bytes_def)
qed

lemma length_object_bytes: "length (object_bytes bo w) = COUNTER_SIZE"
  by (cases bo) (simp_all add: object_bytes_def le_bytes_def COUNTER_SIZE_def)

lemma object_value_object_bytes: "object_value bo (object_bytes bo w) = w"
  by (cases bo) (simp_all add: object_value_def object_bytes_def le_value_le_bytes)

lemma base_256:
  fixes n :: nat
  assumes "n < 4294967296"
  shows "n = n mod 256 + 256 * (n div 256 mod 256) + 65536 * (n div 65536 mod 256)
           + 16777216 * (n div 16777216 mod 256)"
proof -
  define q1 q2 q3 where "q1 = n div 256" and "q2 = n div 65536" and "q3 = n div 16777216"
  define b0 b1 b2 where "b0 = n mod 256" and "b1 = q1 mod 256" and "b2 = q2 mod 256"
  have "q1 div 256 = q2" "q2 div 256 = q3"
    by (simp_all add: q1_def q2_def q3_def div_mult2_eq [symmetric])
  then have "n = b0 + 256 * q1" "q1 = b1 + 256 * q2" "q2 = b2 + 256 * q3"
    unfolding b0_def b1_def b2_def q1_def by (metis mod_mult_div_eq)+
  moreover have "q3 mod 256 = q3"
    using assms by (simp add: q3_def less_mult_imp_div_less)
  ultimately have "n = b0 + 256 * b1 + 65536 * b2 + 16777216 * (q3 mod 256)"
    by simp
  then show ?thesis
    by (simp only: b0_def b1_def b2_def q1_def q2_def q3_def)
qed

lemma le_bytes_value:
  "unat w = unat (le_bytes w ! 0) + 256 * unat (le_bytes w ! 1)
          + 65536 * unat (le_bytes w ! 2) + 16777216 * unat (le_bytes w ! 3)"
proof -
  have "unat w < 4294967296" using unsigned_less [of w] by simp
  moreover have "unat (le_bytes w ! 0) = unat w mod 256"
    "unat (le_bytes w ! 1) = unat w div 256 mod 256"
    "unat (le_bytes w ! 2) = unat w div 65536 mod 256"
    "unat (le_bytes w ! 3) = unat w div 16777216 mod 256"
    by (simp_all add: le_bytes_def unsigned_ucast_eq unat_drop_bit_eq drop_bit_eq_div
          take_bit_eq_mod unat_div)
  ultimately show ?thesis
    by (simp only: base_256 [symmetric])
qed

lemma counter_step:
  fixes c :: u32
  assumes "unat c < 2 ^ 32 - 1"
  shows "unat (c + 1) = unat c + 1" and "c < c + 1"
proof -
  show "unat (c + 1) = unat c + 1"
    using assms by (simp add: unat_word_ariths)
  then show "c < c + 1"
    by (simp add: word_less_nat_alt)
qed

lemma counter_wrap:
  fixes c :: u32
  assumes "unat c = 2 ^ 32 - 1"
  shows "c + 1 = 0"
proof -
  have "unat (c + 1) = 0"
    using assms by (simp add: unat_word_ariths)
  then show ?thesis by (simp add: unat_0_iff)
qed

lemma HMAC_length: "HMAC H key d = Inr md \<Longrightarrow> length md = OUTPUT_SIZE"
  by (auto simp: HMAC_def Let_def split: if_splits)

lemma memcmp_same: "n \<le> length xs \<Longrightarrow> memcmp xs xs n = Inr 0"
proof (induction xs arbitrary: n)
  case Nil
  then show ?case by simp
next
  case (Cons x xs)
  then show ?case by (cases n) simp_all
qed

lemma memcmp_defined:
  "n \<le> length xs \<Longrightarrow> n \<le> length ys \<Longrightarrow> \<exists>c. memcmp xs ys n = Inr c"
  by (induction xs ys n rule: memcmp.induct) auto

lemma memcmp_zero:
  "memcmp xs ys n = Inr 0 \<Longrightarrow> take n xs = take n ys"
proof (induction xs ys n rule: memcmp.induct)
  case (2 a s1 b s2 n)
  show ?case
  proof (cases "a = b")
    case True
    with 2 show ?thesis by simp
  next
    case False
    with 2 have "int (unat a) = int (unat b)" by simp
    then have "a = b" by (simp add: word_uint_eq_iff)
    with False show ?thesis by simp
  qed
qed simp_all

lemma memcmp_take_eq:
  "n \<le> length xs \<Longrightarrow> n \<le> length ys \<Longrightarrow> take n xs = take n ys \<Longrightarrow> memcmp xs ys n = Inr 0"
  by (induction xs ys n rule: memcmp.induct) auto

lemma compute_prover_hmac_length:
  "compute_prover_hmac H bo m c nonce = Inr h \<Longrightarrow> length h = OUTPUT_SIZE"
  by (auto simp: compute_prover_hmac_def Let_def split: sum.splits dest: HMAC_length)

lemma compute_prover_hmac_keys:
  "Kauth m' = Kauth m \<Longrightarrow> Kattest m' = Kattest m \<Longrightarrow>
   compute_prover_hmac H bo m' c nonce = compute_prover_hmac H bo m c nonce"
  by (simp add: compute_prover_hmac_def compute_valid_software_state_def get_secure_key_def)

lemma prover_round_short:
  "length l < COUNTER_SIZE + KEY_SIZE + NONCE_SIZE + OUTPUT_SIZE \<Longrightarrow> prover_round H bo m l = Inl Blocked"
  by (auto simp: prover_round_def safe_uart_read_def sizes split: sum.splits)

lemma prover_round_stale:
  assumes "length c = COUNTER_SIZE" "length d = KEY_SIZE" "length n = NONCE_SIZE"
    "length p = OUTPUT_SIZE" "object_value bo c \<le> C_P m"
  shows "prover_round H bo m (c @ d @ n @ p @ rest) =
    Inr \<lparr>mem = m, written = replicate (1 + OUTPUT_SIZE) 0, printed = Rejecting_request, line = rest\<rparr>"
  using assms by (simp add: prover_round_def safe_uart_read_def safe_uart_write_def)

lemma prover_round_fresh:
  assumes "length c = COUNTER_SIZE" "length d = KEY_SIZE" "length n = NONCE_SIZE"
    "length p = OUTPUT_SIZE" "C_P m < object_value bo c"
  shows "prover_round H bo m (c @ d @ n @ p @ rest) =
    (case compute_prover_hmac H bo m (object_value bo c) n of
       Inl f \<Rightarrow> Inl f
     | Inr expected_hmac \<Rightarrow>
         (case memcmp p expected_hmac OUTPUT_SIZE of
            Inl f \<Rightarrow> Inl f
          | Inr x \<Rightarrow>
              if x = 0 then
                Inr \<lparr>mem = m\<lparr>C_P := object_value bo c\<rparr>, written = 1 # expected_hmac,
                     printed = Attestation_SUCCESS, line = rest\<rparr>
              else Inr \<lparr>mem = m, written = [], printed = Attestation_FAILED, line = rest\<rparr>))"
proof -
  have k: "compute_prover_hmac H bo (m\<lparr>C_P := object_value bo c\<rparr>) (object_value bo c) n
          = compute_prover_hmac H bo m (object_value bo c) n"
    by (rule compute_prover_hmac_keys) simp_all
  show ?thesis
    using assms
    by (auto simp: prover_round_def safe_uart_read_def safe_uart_write_def k Let_def
             split: sum.splits dest: compute_prover_hmac_length)
qed

lemma drop_take_drop: "drop n xs = take k (drop n xs) @ drop (n + k) xs"
  by (metis append_take_drop_id drop_drop add.commute)

lemma request_split:
  "l = take COUNTER_SIZE l @ take KEY_SIZE (drop COUNTER_SIZE l)
           @ take NONCE_SIZE (drop (COUNTER_SIZE + KEY_SIZE) l)
           @ take OUTPUT_SIZE (drop (COUNTER_SIZE + KEY_SIZE + NONCE_SIZE) l)
           @ drop (COUNTER_SIZE + KEY_SIZE + NONCE_SIZE + OUTPUT_SIZE) l"
proof -
  have "l = take COUNTER_SIZE l @ drop COUNTER_SIZE l"
    by simp
  also have "drop COUNTER_SIZE l =
      take KEY_SIZE (drop COUNTER_SIZE l) @ drop (COUNTER_SIZE + KEY_SIZE) l"
    by (rule drop_take_drop)
  also have "drop (COUNTER_SIZE + KEY_SIZE) l =
      take NONCE_SIZE (drop (COUNTER_SIZE + KEY_SIZE) l)
        @ drop (COUNTER_SIZE + KEY_SIZE + NONCE_SIZE) l"
    by (rule drop_take_drop)
  also have "drop (COUNTER_SIZE + KEY_SIZE + NONCE_SIZE) l =
      take OUTPUT_SIZE (drop (COUNTER_SIZE + KEY_SIZE + NONCE_SIZE) l)
        @ drop (COUNTER_SIZE + KEY_SIZE + NONCE_SIZE + OUTPUT_SIZE) l"
    by (rule drop_take_drop)
  finally show ?thesis .
qed

section \<open>One round of the Prover\<close>

lemma prover_round_long:
  assumes "prover_round H bo m l = Inr r"
  shows "COUNTER_SIZE + KEY_SIZE + NONCE_SIZE + OUTPUT_SIZE \<le> length l"
proof (rule ccontr)
  assume "\<not> ?thesis"
  then have "prover_round H bo m l = Inl Blocked"
    by (intro prover_round_short) simp
  with assms show False by simp
qed

lemma request_parts:
  assumes "COUNTER_SIZE + KEY_SIZE + NONCE_SIZE + OUTPUT_SIZE \<le> length l"
  shows "length (take COUNTER_SIZE l) = COUNTER_SIZE"
    and "length (take KEY_SIZE (drop COUNTER_SIZE l)) = KEY_SIZE"
    and "length (take NONCE_SIZE (drop (COUNTER_SIZE + KEY_SIZE) l)) = NONCE_SIZE"
    and "length (take OUTPUT_SIZE (drop (COUNTER_SIZE + KEY_SIZE + NONCE_SIZE) l)) = OUTPUT_SIZE"
  using assms by (simp_all add: sizes)

lemma prover_round_stale_line:
  assumes "COUNTER_SIZE + KEY_SIZE + NONCE_SIZE + OUTPUT_SIZE \<le> length l"
    and "object_value bo (take COUNTER_SIZE l) \<le> C_P m"
  shows "prover_round H bo m l =
    Inr \<lparr>mem = m, written = replicate (1 + OUTPUT_SIZE) 0, printed = Rejecting_request,
         line = drop (COUNTER_SIZE + KEY_SIZE + NONCE_SIZE + OUTPUT_SIZE) l\<rparr>"
  by (subst request_split [of l]) (rule prover_round_stale [OF request_parts [OF assms(1)] assms(2)])

lemma prover_round_fresh_line:
  assumes "COUNTER_SIZE + KEY_SIZE + NONCE_SIZE + OUTPUT_SIZE \<le> length l"
    and "C_P m < object_value bo (take COUNTER_SIZE l)"
  shows "prover_round H bo m l =
    (case compute_prover_hmac H bo m (object_value bo (take COUNTER_SIZE l))
            (take NONCE_SIZE (drop (COUNTER_SIZE + KEY_SIZE) l)) of
       Inl f \<Rightarrow> Inl f
     | Inr expected_hmac \<Rightarrow>
         (case memcmp (take OUTPUT_SIZE (drop (COUNTER_SIZE + KEY_SIZE + NONCE_SIZE) l))
                 expected_hmac OUTPUT_SIZE of
            Inl f \<Rightarrow> Inl f
          | Inr x \<Rightarrow>
              if x = 0 then
                Inr \<lparr>mem = m\<lparr>C_P := object_value bo (take COUNTER_SIZE l)\<rparr>,
                     written = 1 # expected_hmac,
                     printed = Attestation_SUCCESS,
                     line = drop (COUNTER_SIZE + KEY_SIZE + NONCE_SIZE + OUTPUT_SIZE) l\<rparr>
              else Inr \<lparr>mem = m, written = [], printed = Attestation_FAILED,
                        line = drop (COUNTER_SIZE + KEY_SIZE + NONCE_SIZE + OUTPUT_SIZE) l\<rparr>))"
  by (subst request_split [of l]) (rule prover_round_fresh [OF request_parts [OF assms(1)] assms(2)])

text \<open>The three ways a round ends.\<close>

lemma prover_round_cases:
  assumes "prover_round H bo m l = Inr r"
  shows "(printed r = Rejecting_request \<and> mem r = m \<and> written r = replicate (1 + OUTPUT_SIZE) 0
            \<and> object_value bo (take COUNTER_SIZE l) \<le> C_P m)
       \<or> (printed r = Attestation_FAILED \<and> mem r = m \<and> written r = []
            \<and> C_P m < object_value bo (take COUNTER_SIZE l)
            \<and> compute_prover_hmac H bo m (object_value bo (take COUNTER_SIZE l))
                 (take NONCE_SIZE (drop (COUNTER_SIZE + KEY_SIZE) l))
               \<noteq> Inr (take OUTPUT_SIZE (drop (COUNTER_SIZE + KEY_SIZE + NONCE_SIZE) l)))
       \<or> (printed r = Attestation_SUCCESS \<and> mem r = m\<lparr>C_P := object_value bo (take COUNTER_SIZE l)\<rparr>
            \<and> written r = 1 # take OUTPUT_SIZE (drop (COUNTER_SIZE + KEY_SIZE + NONCE_SIZE) l)
            \<and> C_P m < object_value bo (take COUNTER_SIZE l)
            \<and> compute_prover_hmac H bo m (object_value bo (take COUNTER_SIZE l))
                 (take NONCE_SIZE (drop (COUNTER_SIZE + KEY_SIZE) l))
               = Inr (take OUTPUT_SIZE (drop (COUNTER_SIZE + KEY_SIZE + NONCE_SIZE) l)))"
proof -
  note len = prover_round_long [OF assms]
  let ?p = "take OUTPUT_SIZE (drop (COUNTER_SIZE + KEY_SIZE + NONCE_SIZE) l)"
  have lp: "length ?p = OUTPUT_SIZE" by (rule request_parts [OF len])
  show ?thesis
  proof (cases "object_value bo (take COUNTER_SIZE l) \<le> C_P m")
    case True
    from assms show ?thesis
      unfolding prover_round_stale_line [OF len True] using True by auto
  next
    case False
    then have fresh: "C_P m < object_value bo (take COUNTER_SIZE l)" by simp
    have eq: "e = ?p" if "memcmp ?p e OUTPUT_SIZE = Inr 0"
       and "compute_prover_hmac H bo m c n = Inr e" for e c n
    proof -
      have "length e = OUTPUT_SIZE" using that(2) by (rule compute_prover_hmac_length)
      moreover have "take OUTPUT_SIZE ?p = take OUTPUT_SIZE e" using that(1) by (rule memcmp_zero)
      ultimately show ?thesis using lp by simp
    qed
    have same: "memcmp ?p ?p OUTPUT_SIZE = Inr 0"
      by (rule memcmp_same) (rule eq_imp_le [OF lp [symmetric]])
    from assms show ?thesis
      unfolding prover_round_fresh_line [OF len fresh] using fresh same
      by (auto split: sum.splits if_splits dest: eq)
  qed
qed

lemma prover_round_rest:
  assumes "prover_round H bo m l = Inr r"
  shows "line r = drop (COUNTER_SIZE + KEY_SIZE + NONCE_SIZE + OUTPUT_SIZE) l"
proof -
  note len = prover_round_long [OF assms]
  show ?thesis
  proof (cases "object_value bo (take COUNTER_SIZE l) \<le> C_P m")
    case True
    from assms show ?thesis
      unfolding prover_round_stale_line [OF len True] by auto
  next
    case False
    then have fresh: "C_P m < object_value bo (take COUNTER_SIZE l)" by simp
    from assms show ?thesis
      unfolding prover_round_fresh_line [OF len fresh]
      by (auto split: sum.splits if_splits)
  qed
qed

lemma prover_round_C_P:
  assumes "prover_round H bo m l = Inr r"
  shows "C_P m \<le> C_P (mem r)"
  using prover_round_cases [OF assms] by auto

lemma prover_loop_C_P:
  "C_P m \<le> C_P (final (prover_loop H bo m l out pr))"
proof (induction H bo m l out pr rule: prover_loop.induct)
  case (1 H bo m l out pr)
  show ?case
  proof (cases "prover_round H bo m l")
    case (Inl f)
    then show ?thesis by (subst prover_loop.simps) simp
  next
    case (Inr r)
    have "C_P m \<le> C_P (mem r)" using Inr by (rule prover_round_C_P)
    also have "\<dots> \<le> C_P (final (prover_loop H bo (mem r) (line r) (out @ written r) (pr @ [printed r])))"
      using Inr by (rule "1.IH")
    finally show ?thesis using Inr by (subst prover_loop.simps) simp
  qed
qed

lemma compute_prover_hmac_returns:
  assumes "\<And>k d. length (H k d) = OUTPUT_SIZE"
  shows "\<exists>h. compute_prover_hmac H bo m c nonce = Inr h \<and> length h = OUTPUT_SIZE"
  by (simp add: compute_prover_hmac_def compute_valid_software_state_def HMAC_def assms Let_def)

lemma prover_round_parse:
  assumes "length c = COUNTER_SIZE" "length d = KEY_SIZE" "length n = NONCE_SIZE"
    "length p = OUTPUT_SIZE"
  shows "prover_round H bo m (c @ d @ n @ p @ rest) =
    (if object_value bo c \<le> C_P m then
       Inr \<lparr>mem = m, written = replicate (1 + OUTPUT_SIZE) 0, printed = Rejecting_request,
            line = rest\<rparr>
     else
       (case compute_prover_hmac H bo m (object_value bo c) n of
          Inl f \<Rightarrow> Inl f
        | Inr expected_hmac \<Rightarrow>
            (case memcmp p expected_hmac OUTPUT_SIZE of
               Inl f \<Rightarrow> Inl f
             | Inr x \<Rightarrow>
                 if x = 0 then
                   Inr \<lparr>mem = m\<lparr>C_P := object_value bo c\<rparr>, written = 1 # expected_hmac,
                        printed = Attestation_SUCCESS, line = rest\<rparr>
                 else Inr \<lparr>mem = m, written = [], printed = Attestation_FAILED, line = rest\<rparr>)))"
proof (cases "object_value bo c \<le> C_P m")
  case True
  then show ?thesis by (simp add: prover_round_stale [OF assms])
next
  case False
  then have "C_P m < object_value bo c" by simp
  from prover_round_fresh [OF assms this] False show ?thesis by simp
qed

lemma prover_round_report:
  assumes "prover_round H bo m l = Inr r" and "printed r \<noteq> Attestation_FAILED"
  shows "\<exists>pf. written r = (if printed r = Attestation_SUCCESS then 1 else 0) # pf
            \<and> length pf = OUTPUT_SIZE"
proof -
  have "length (take OUTPUT_SIZE (drop (COUNTER_SIZE + KEY_SIZE + NONCE_SIZE) l)) = OUTPUT_SIZE"
    by (rule request_parts [OF prover_round_long [OF assms(1)]])
  moreover have "replicate (1 + OUTPUT_SIZE) (0 :: u8) = 0 # replicate OUTPUT_SIZE 0"
    by simp
  ultimately show ?thesis
    using prover_round_cases [OF assms(1)] assms(2) by (elim disjE) auto
qed

section \<open>The proof of a request\<close>

lemma compute_hmac_same:
  assumes "Kauth p = Kauth v" and "Kattest p = Kattest v"
  shows "compute_prover_hmac H bo p (C_V v) nonce = compute_verifier_hmac H bo v nonce"
  using assms
  by (simp add: compute_prover_hmac_def compute_verifier_hmac_def
        compute_valid_software_state_def get_secure_key_def Let_def cong: sum.case_cong)

lemma compute_verifier_hmac_returns:
  assumes "\<And>k d. length (H k d) = OUTPUT_SIZE"
  shows "\<exists>h. compute_verifier_hmac H bo v nonce = Inr h \<and> length h = OUTPUT_SIZE"
  by (simp add: compute_verifier_hmac_def compute_valid_software_state_def HMAC_def assms Let_def)

section \<open>One request of the Verifier\<close>

lemma length_generate_nonce: "length (generate_nonce rnd pos) = NONCE_SIZE"
  by (simp add: generate_nonce_def)

lemma compute_valid_software_state_length:
  "compute_valid_software_state H m = Inr d \<Longrightarrow> length d = OUTPUT_SIZE"
  by (auto simp: compute_valid_software_state_def Let_def dest: HMAC_length)

lemma compute_verifier_hmac_length:
  "compute_verifier_hmac H bo m nonce = Inr h \<Longrightarrow> length h = OUTPUT_SIZE"
  by (auto simp: compute_verifier_hmac_def Let_def split: sum.splits dest: HMAC_length)

lemma verifier_send_request_layout:
  assumes "verifier_send_request H bo m rnd pos = Inr (m', rq)"
  shows "m' = m\<lparr>C_V := C_V m + 1\<rparr>
       \<and> (\<exists>valid_state hmac.
             compute_valid_software_state H m' = Inr valid_state
           \<and> compute_verifier_hmac H bo m' (generate_nonce rnd pos) = Inr hmac
           \<and> rq = object_bytes bo (C_V m') @ valid_state @ generate_nonce rnd pos @ hmac)"
  using assms
  by (auto simp: verifier_send_request_def safe_uart_write_def Let_def
        length_object_bytes length_generate_nonce
        split: sum.splits
        dest!: compute_valid_software_state_length compute_verifier_hmac_length)
    (simp_all add: sizes)

lemma verifier_read_report_parse:
  assumes "length pf = OUTPUT_SIZE"
  shows "verifier_read_report (flag # pf @ rest)
           = Inr (if flag = 1 then Attestation_SUCCESSFUL else Report_FAILED, rest)"
  using assms by (simp add: verifier_read_report_def safe_uart_read_def)

lemma verifier_read_report_short:
  "length l < 1 + OUTPUT_SIZE \<Longrightarrow> verifier_read_report l = Inl Blocked"
  by (simp add: verifier_read_report_def safe_uart_read_def)

section \<open>Start of a role\<close>

lemma load_key_from_file_missing:
  "fs filename = None \<Longrightarrow> load_key_from_file fs key filename = key"
  by (simp add: load_key_from_file_def)

lemma initialize_keys_missing:
  "fs ''kauth.key'' = None \<Longrightarrow> Kauth (initialize_keys fs m) = Kauth m"
  "fs ''kattest.key'' = None \<Longrightarrow> Kattest (initialize_keys fs m) = Kattest m"
  by (simp_all add: initialize_keys_def load_key_from_file_def Let_def)

section \<open>The demonstration round\<close>

lemma demo_send:
  "verifier_send_request demo_mac LittleEndian verifier_start demo_urandom 0
     = Inr (verifier_start\<lparr>C_V := 1\<rparr>, demo_request)"
  by code_simp

lemma demo_send_wrap:
  "verifier_send_request demo_mac LittleEndian (verifier_start\<lparr>C_V := 4294967295\<rparr>) demo_urandom 0
     = Inr (verifier_start\<lparr>C_V := 0\<rparr>,
            [0, 0, 0, 0] @ replicate 32 144 @ map of_nat [0 ..< 32] @ replicate 32 240)"
  by code_simp

lemma demo_send_big_endian:
  "verifier_send_request demo_mac BigEndian verifier_start demo_urandom 0
     = Inr (verifier_start\<lparr>C_V := 1\<rparr>,
            [0, 0, 0, 1] @ replicate 32 144 @ map of_nat [0 ..< 32] @ replicate 32 241)"
  by code_simp

lemma demo_accept:
  "prover_round demo_mac LittleEndian prover_start demo_request
     = Inr \<lparr>mem = prover_start\<lparr>C_P := 1\<rparr>, written = 1 # replicate 32 241,
            printed = Attestation_SUCCESS, line = []\<rparr>"
  by code_simp

lemma demo_mac_length: "length (demo_mac k d) = OUTPUT_SIZE"
  by (simp add: demo_mac_def OUTPUT_SIZE_def)

lemma demo_prover_main:
  "prover_main demo_mac LittleEndian no_files pts demo_request
     = Serving \<lparr>final = prover_start\<lparr>C_P := 1\<rparr>, sent = 1 # replicate 32 241,
                prints = [Attestation_SUCCESS], stopped = Blocked\<rparr>"
  by code_simp

section \<open>Replay and freshness\<close>

text \<open>
  C1. A request that has arrived whole and whose counter is not above \<^verbatim>\<open>C_P\<close> is answered
  with a report of 33 zero bytes (flag 0, proof zero), and the memory of the Prover, its
  counter included, is what it was.
\<close>

theorem stale_request_rejected:
  assumes "COUNTER_SIZE + KEY_SIZE + NONCE_SIZE + OUTPUT_SIZE \<le> length l"
    and "object_value bo (take COUNTER_SIZE l) \<le> C_P m"
  shows "prover_round H bo m l =
    Inr \<lparr>mem = m, written = replicate 33 0, printed = Rejecting_request,
         line = drop (COUNTER_SIZE + KEY_SIZE + NONCE_SIZE + OUTPUT_SIZE) l\<rparr>"
  using prover_round_stale_line [OF assms, of H] by (simp add: OUTPUT_SIZE_def)

theorem stale_request_rejected_witness:
  "COUNTER_SIZE + KEY_SIZE + NONCE_SIZE + OUTPUT_SIZE \<le> length ([5, 0, 0, 0] @ replicate 96 (9 :: u8))
   \<and> object_value LittleEndian (take COUNTER_SIZE ([5, 0, 0, 0] @ replicate 96 9))
        \<le> C_P (prover_start\<lparr>C_P := 5\<rparr>)
   \<and> prover_round demo_mac LittleEndian (prover_start\<lparr>C_P := 5\<rparr>) ([5, 0, 0, 0] @ replicate 96 9) =
       Inr \<lparr>mem = prover_start\<lparr>C_P := 5\<rparr>, written = replicate 33 0,
            printed = Rejecting_request, line = []\<rparr>"
proof -
  have h1: "COUNTER_SIZE + KEY_SIZE + NONCE_SIZE + OUTPUT_SIZE
              \<le> length ([5, 0, 0, 0] @ replicate 96 (9 :: u8))"
    by (simp add: sizes)
  have h2: "object_value LittleEndian (take COUNTER_SIZE ([5, 0, 0, 0] @ replicate 96 9))
              \<le> C_P (prover_start\<lparr>C_P := 5\<rparr>)"
    by (simp add: sizes object_value_def le_value_def)
  show ?thesis
    using h1 h2 stale_request_rejected [OF h1 h2, of demo_mac] by (simp add: sizes)
qed

text \<open>
  C2. \<^verbatim>\<open>C_P\<close> never goes down, over one round and over a whole run. A round that prints
  \<^verbatim>\<open>Attestation SUCCESS\<close> leaves \<^verbatim>\<open>C_P\<close> strictly above its old value and equal to
  the counter of the request; every other round leaves it as it was.
\<close>

theorem prover_counter_monotonic:
  "C_P m \<le> C_P (final (prover_loop H bo m l out pr))
   \<and> (\<forall>r. prover_round H bo m l = Inr r \<longrightarrow>
         (printed r = Attestation_SUCCESS \<longrightarrow>
            C_P m < C_P (mem r) \<and> C_P (mem r) = object_value bo (take COUNTER_SIZE l))
       \<and> (printed r \<noteq> Attestation_SUCCESS \<longrightarrow> C_P (mem r) = C_P m)
       \<and> C_P m \<le> C_P (mem r))"
proof (intro conjI allI impI)
  show "C_P m \<le> C_P (final (prover_loop H bo m l out pr))"
    by (rule prover_loop_C_P)
next
  fix r
  assume "prover_round H bo m l = Inr r" and "printed r = Attestation_SUCCESS"
  then show "C_P m < C_P (mem r)" "C_P (mem r) = object_value bo (take COUNTER_SIZE l)"
    using prover_round_cases [of H bo m l r] by auto
next
  fix r
  assume "prover_round H bo m l = Inr r" and "printed r \<noteq> Attestation_SUCCESS"
  then show "C_P (mem r) = C_P m"
    using prover_round_cases [of H bo m l r] by auto
next
  fix r
  assume "prover_round H bo m l = Inr r"
  then show "C_P m \<le> C_P (mem r)" by (rule prover_round_C_P)
qed

theorem prover_counter_monotonic_witness:
  "prover_round demo_mac LittleEndian prover_start demo_request
     = Inr \<lparr>mem = prover_start\<lparr>C_P := 1\<rparr>, written = 1 # replicate 32 241,
            printed = Attestation_SUCCESS, line = []\<rparr>
   \<and> C_P prover_start < C_P (prover_start\<lparr>C_P := 1\<rparr>)
   \<and> C_P (prover_start\<lparr>C_P := 1\<rparr>) = object_value LittleEndian (take COUNTER_SIZE demo_request)
   \<and> C_P prover_start \<le> C_P (final (prover_loop demo_mac LittleEndian prover_start demo_request [] []))"
  using demo_accept
    prover_counter_monotonic [of prover_start demo_mac LittleEndian demo_request "[]" "[]"]
  by simp

text \<open>
  C5. The 32 digest bytes of a request are read and never looked at: two requests that
  differ in them alone give the same round, in memory, report, printed line and rest of
  the line.
\<close>

theorem digest_field_ignored:
  assumes "length c = COUNTER_SIZE" and "length d = KEY_SIZE" and "length d' = KEY_SIZE"
  shows "prover_round H bo m (c @ d @ rest) = prover_round H bo m (c @ d' @ rest)"
  using assms by (simp add: prover_round_def safe_uart_read_def)

theorem digest_field_ignored_witness:
  "length [1, 0, 0, 0 :: u8] = COUNTER_SIZE \<and> length (replicate 32 (144 :: u8)) = KEY_SIZE
   \<and> length (replicate 32 (7 :: u8)) = KEY_SIZE
   \<and> prover_round demo_mac LittleEndian prover_start
        ([1, 0, 0, 0] @ replicate 32 144 @ map of_nat [0 ..< 32] @ replicate 32 241)
      = prover_round demo_mac LittleEndian prover_start
        ([1, 0, 0, 0] @ replicate 32 7 @ map of_nat [0 ..< 32] @ replicate 32 241)"
proof -
  have h1: "length [1, 0, 0, 0 :: u8] = COUNTER_SIZE" by (simp add: sizes)
  have h2: "length (replicate 32 (144 :: u8)) = KEY_SIZE" by (simp add: sizes)
  have h3: "length (replicate 32 (7 :: u8)) = KEY_SIZE" by (simp add: sizes)
  show ?thesis
    using h1 h2 h3 digest_field_ignored [OF h1 h2 h3] by simp
qed

text \<open>
  C3. What the code does with a fresh request whose proof is not the expected one, here
  counter 1 with an all-zero proof against a Prover at \<^verbatim>\<open>C_P = 0\<close>: it prints
  \<^verbatim>\<open>Attestation FAILED\<close>, keeps its memory and writes nothing to the line.
\<close>

theorem mismatch_sends_no_report:
  "prover_round demo_mac LittleEndian prover_start ([1, 0, 0, 0] @ replicate 96 0)
     = Inr \<lparr>mem = prover_start, written = [], printed = Attestation_FAILED, line = []\<rparr>"
  by code_simp

section \<open>Proofs\<close>

text \<open>
  C4. With the same two keys on both sides, the HMAC the Prover recomputes for the
  Verifier's counter and nonce is the HMAC the Verifier computed, and when the keyed digest
  fills its 32-byte output both computations return it, so \<^verbatim>\<open>memcmp\<close> of the two
  over \<^verbatim>\<open>OUTPUT_SIZE\<close> bytes is 0.
\<close>

theorem computed_proof_verifies:
  assumes "Kauth p = Kauth v" and "Kattest p = Kattest v"
    and "\<And>k d. length (H k d) = OUTPUT_SIZE"
  shows "\<exists>received_hmac expected_hmac.
           compute_verifier_hmac H bo v nonce = Inr received_hmac
         \<and> compute_prover_hmac H bo p (C_V v) nonce = Inr expected_hmac
         \<and> received_hmac = expected_hmac
         \<and> memcmp received_hmac expected_hmac OUTPUT_SIZE = Inr 0"
proof -
  obtain h where h: "compute_verifier_hmac H bo v nonce = Inr h" and l: "length h = OUTPUT_SIZE"
    using compute_verifier_hmac_returns [of H bo v nonce, OF assms(3)] by blast
  have "compute_prover_hmac H bo p (C_V v) nonce = Inr h"
    using compute_hmac_same [OF assms(1,2)] h by simp
  moreover have "memcmp h h OUTPUT_SIZE = Inr 0"
    by (rule memcmp_same) (simp add: l)
  ultimately show ?thesis using h by blast
qed

theorem computed_proof_verifies_witness:
  "Kauth prover_start = Kauth (verifier_start\<lparr>C_V := 1\<rparr>)
   \<and> Kattest prover_start = Kattest (verifier_start\<lparr>C_V := 1\<rparr>)
   \<and> (\<exists>received_hmac expected_hmac.
           compute_verifier_hmac demo_mac LittleEndian (verifier_start\<lparr>C_V := 1\<rparr>) (map of_nat [0 ..< 32])
             = Inr received_hmac
         \<and> compute_prover_hmac demo_mac LittleEndian prover_start
              (C_V (verifier_start\<lparr>C_V := 1\<rparr>)) (map of_nat [0 ..< 32]) = Inr expected_hmac
         \<and> received_hmac = expected_hmac
         \<and> memcmp received_hmac expected_hmac OUTPUT_SIZE = Inr 0)"
proof -
  have h1: "Kauth prover_start = Kauth (verifier_start\<lparr>C_V := 1\<rparr>)"
    by (simp add: prover_start_def verifier_start_def)
  have h2: "Kattest prover_start = Kattest (verifier_start\<lparr>C_V := 1\<rparr>)"
    by (simp add: prover_start_def verifier_start_def)
  show ?thesis
    using h1 h2
      computed_proof_verifies [where H = demo_mac and bo = LittleEndian
        and nonce = "map of_nat [0 ..< 32]", OF h1 h2 demo_mac_length]
    by blast
qed

text \<open>
  C10. In a round that prints \<^verbatim>\<open>Attestation SUCCESS\<close> the report is the flag 1 followed
  by the very 32 proof bytes of the request: the second HMAC is computed from the same keys,
  the counter just stored and the same nonce as the first.
\<close>

theorem report_proof_is_request_proof:
  assumes "prover_round H bo m l = Inr r" and "printed r = Attestation_SUCCESS"
  shows "written r = 1 # take OUTPUT_SIZE (drop (COUNTER_SIZE + KEY_SIZE + NONCE_SIZE) l)
       \<and> C_P (mem r) = object_value bo (take COUNTER_SIZE l)
       \<and> compute_prover_hmac H bo (mem r) (C_P (mem r)) (take NONCE_SIZE (drop (COUNTER_SIZE + KEY_SIZE) l))
           = compute_prover_hmac H bo m (object_value bo (take COUNTER_SIZE l))
               (take NONCE_SIZE (drop (COUNTER_SIZE + KEY_SIZE) l))"
proof -
  from prover_round_cases [OF assms(1)] assms(2)
  have m': "mem r = m\<lparr>C_P := object_value bo (take COUNTER_SIZE l)\<rparr>"
    and w: "written r = 1 # take OUTPUT_SIZE (drop (COUNTER_SIZE + KEY_SIZE + NONCE_SIZE) l)"
    by auto
  have "compute_prover_hmac H bo (mem r) (C_P (mem r)) (take NONCE_SIZE (drop (COUNTER_SIZE + KEY_SIZE) l))
      = compute_prover_hmac H bo m (C_P (mem r)) (take NONCE_SIZE (drop (COUNTER_SIZE + KEY_SIZE) l))"
    by (rule compute_prover_hmac_keys) (simp_all add: m')
  with m' w show ?thesis by simp
qed

theorem report_proof_is_request_proof_witness:
  "prover_round demo_mac LittleEndian prover_start demo_request
     = Inr \<lparr>mem = prover_start\<lparr>C_P := 1\<rparr>, written = 1 # replicate 32 241,
            printed = Attestation_SUCCESS, line = []\<rparr>
   \<and> 1 # replicate 32 (241 :: u8)
       = 1 # take OUTPUT_SIZE (drop (COUNTER_SIZE + KEY_SIZE + NONCE_SIZE) demo_request)"
  using demo_accept
    report_proof_is_request_proof [of demo_mac LittleEndian prover_start demo_request
      "\<lparr>mem = prover_start\<lparr>C_P := 1\<rparr>, written = 1 # replicate 32 241,
            printed = Attestation_SUCCESS, line = []\<rparr>"]
  by simp

section \<open>The counter of the Verifier\<close>

text \<open>
  C6, as the code has it. A round that sends its request leaves \<^verbatim>\<open>C_V\<close> one higher
  modulo \<open>2 ^ 32\<close>, and the request and its proof carry the new value. Below
  \<open>2 ^ 32 - 1\<close> the new value is the old plus one and strictly above it; at
  \<open>2 ^ 32 - 1\<close> the new value is 0.
\<close>

theorem verifier_counter_increment:
  assumes "verifier_send_request H bo m rnd pos = Inr (m', rq)"
  shows "C_V m' = C_V m + 1
       \<and> take COUNTER_SIZE rq = object_bytes bo (C_V m + 1)
       \<and> compute_verifier_hmac H bo (m\<lparr>C_V := C_V m + 1\<rparr>) (generate_nonce rnd pos)
           = Inr (drop (COUNTER_SIZE + KEY_SIZE + NONCE_SIZE) rq)
       \<and> (unat (C_V m) < 2 ^ 32 - 1 \<longrightarrow> unat (C_V m') = unat (C_V m) + 1 \<and> C_V m < C_V m')
       \<and> (unat (C_V m) = 2 ^ 32 - 1 \<longrightarrow> C_V m' = 0)"
proof -
  from verifier_send_request_layout [OF assms]
  obtain valid_state hmac where m': "m' = m\<lparr>C_V := C_V m + 1\<rparr>"
    and vs: "compute_valid_software_state H m' = Inr valid_state"
    and h: "compute_verifier_hmac H bo m' (generate_nonce rnd pos) = Inr hmac"
    and rq: "rq = object_bytes bo (C_V m') @ valid_state @ generate_nonce rnd pos @ hmac"
    by blast
  have l: "length (object_bytes bo (C_V m')) = COUNTER_SIZE" "length valid_state = KEY_SIZE"
    "length (generate_nonce rnd pos) = NONCE_SIZE"
    using compute_valid_software_state_length [OF vs]
    by (simp_all add: length_object_bytes length_generate_nonce sizes)
  have "take COUNTER_SIZE rq = object_bytes bo (C_V m')"
    and "drop (COUNTER_SIZE + KEY_SIZE + NONCE_SIZE) rq = hmac"
    using l by (simp_all add: rq)
  then show ?thesis
    using m' h counter_step [of "C_V m"] counter_wrap [of "C_V m"] by simp
qed

theorem verifier_counter_increment_witness:
  "verifier_send_request demo_mac LittleEndian verifier_start demo_urandom 0
     = Inr (verifier_start\<lparr>C_V := 1\<rparr>, demo_request)
   \<and> unat (C_V verifier_start) < 2 ^ 32 - 1
   \<and> unat (C_V (verifier_start\<lparr>C_V := 1\<rparr>)) = unat (C_V verifier_start) + 1
   \<and> take COUNTER_SIZE demo_request = object_bytes LittleEndian (C_V verifier_start + 1)
   \<and> verifier_send_request demo_mac LittleEndian (verifier_start\<lparr>C_V := 4294967295\<rparr>) demo_urandom 0
     = Inr (verifier_start\<lparr>C_V := 0\<rparr>,
            [0, 0, 0, 0] @ replicate 32 144 @ map of_nat [0 ..< 32] @ replicate 32 240)
   \<and> unat (C_V (verifier_start\<lparr>C_V := 4294967295\<rparr>)) = 2 ^ 32 - 1
   \<and> C_V (verifier_start\<lparr>C_V := 0\<rparr>) = 0"
proof -
  have h1: "unat (C_V verifier_start) < 2 ^ 32 - 1"
    by (simp add: verifier_start_def)
  have h2: "unat (C_V (verifier_start\<lparr>C_V := 4294967295\<rparr>)) = 2 ^ 32 - 1"
    by simp
  show ?thesis
    using h1 h2 demo_send demo_send_wrap
      verifier_counter_increment [OF demo_send] verifier_counter_increment [OF demo_send_wrap]
    by simp
qed

text \<open>
  C6 as the claim states it fails at \<^verbatim>\<open>C_V = 4294967295\<close>: the round is not stopped, it
  sends a request with counter 0, and \<^verbatim>\<open>C_V\<close> has gone down to 0.
\<close>

theorem verifier_counter_wraps:
  "verifier_send_request demo_mac LittleEndian (verifier_start\<lparr>C_V := 4294967295\<rparr>) demo_urandom 0
     = Inr (verifier_start\<lparr>C_V := 0\<rparr>,
            [0, 0, 0, 0] @ replicate 32 144 @ map of_nat [0 ..< 32] @ replicate 32 240)
   \<and> C_V (verifier_start\<lparr>C_V := 0\<rparr>) < C_V (verifier_start\<lparr>C_V := 4294967295\<rparr>)"
  using demo_send_wrap by simp

section \<open>Keys that cannot be loaded\<close>

text \<open>
  C7, as the code has it. A key whose file cannot be opened keeps the bytes it had, and
  \<^verbatim>\<open>main\<close> of either role goes on whatever the files gave: it returns \<open>-1\<close> only
  when the UART cannot be opened, and otherwise enters its loop with the keys as
  \<^verbatim>\<open>initialize_keys\<close> left them.
\<close>

theorem key_loading_failure_not_fatal:
  "(fs ''kauth.key'' = None \<longrightarrow> Kauth (initialize_keys fs m) = Kauth m)
   \<and> (fs ''kattest.key'' = None \<longrightarrow> Kattest (initialize_keys fs m) = Kattest m)
   \<and> prover_main H bo fs devs l =
       (if open_uart devs ''/dev/pts/8'' = - 1 then Returned (- 1)
        else Serving (prover_loop H bo (initialize_keys fs prover_start) l [] []))
   \<and> verifier_main H bo fs devs rnd l =
       (if open_uart devs ''/dev/pts/7'' = - 1 then Returned (- 1)
        else Serving (verifier_loop H bo (initialize_keys fs verifier_start) rnd 0 l [] []))"
  by (simp add: initialize_keys_missing prover_main_def verifier_main_def Let_def)

theorem key_loading_failure_not_fatal_witness:
  "no_files ''kauth.key'' = None \<and> no_files ''kattest.key'' = None
   \<and> Kauth (initialize_keys no_files prover_start) = replicate 32 0
   \<and> Kattest (initialize_keys no_files prover_start) = replicate 32 0
   \<and> prover_main demo_mac LittleEndian no_files pts demo_request
       = Serving (prover_loop demo_mac LittleEndian (initialize_keys no_files prover_start)
                    demo_request [] [])"
proof -
  have h: "no_files ''kauth.key'' = None" "no_files ''kattest.key'' = None"
    by (simp_all add: no_files_def)
  have u: "open_uart pts ''/dev/pts/8'' \<noteq> - 1"
    by (simp add: open_uart_def pts_def)
  show ?thesis
    using h u
      key_loading_failure_not_fatal [of no_files prover_start demo_mac LittleEndian pts demo_request]
    by (simp add: prover_start_def KEY_SIZE_def)
qed

text \<open>
  C7 as the claim states it fails when neither key file can be opened: the Prover starts,
  its keys are the 32 zero bytes each, and it serves a request, here the one a Verifier with
  the same zeroed keys sends, which it accepts.
\<close>

theorem zero_keys_in_service:
  "no_files ''kauth.key'' = None \<and> no_files ''kattest.key'' = None
   \<and> Kauth (initialize_keys no_files prover_start) = replicate 32 0
   \<and> Kattest (initialize_keys no_files prover_start) = replicate 32 0
   \<and> prover_main demo_mac LittleEndian no_files pts demo_request
       = Serving \<lparr>final = prover_start\<lparr>C_P := 1\<rparr>, sent = 1 # replicate 32 241,
                  prints = [Attestation_SUCCESS], stopped = Blocked\<rparr>"
  using demo_prover_main
  by (simp add: no_files_def initialize_keys_missing prover_start_def KEY_SIZE_def)

section \<open>The bytes on the line\<close>

text \<open>
  C9, as the code has it. A request that is sent is the four bytes of the counter as the
  host stores them, then the 32 bytes of the digest, the 32 of the nonce and the 32 of the
  proof, 100 bytes. On a little-endian host the counter bytes are \<open>le_bytes\<close>, least
  significant first; on a big-endian host they are the same bytes reversed; read back on a
  host of the same order they give the counter. The Prover takes the fields of a request in
  that order, and the digest takes no part. A report of a round that does not print
  \<^verbatim>\<open>Attestation FAILED\<close> is the flag (1 on success, 0 otherwise) and 32 more bytes,
  33 in all, and the Verifier reads 33 bytes and decides on the first.
\<close>

theorem wire_layout:
  "(\<forall>m' rq. verifier_send_request H bo m rnd pos = Inr (m', rq) \<longrightarrow>
      (\<exists>valid_state hmac.
          rq = object_bytes bo (C_V m') @ valid_state @ generate_nonce rnd pos @ hmac
        \<and> length (object_bytes bo (C_V m')) = 4 \<and> length valid_state = 32
        \<and> length (generate_nonce rnd pos) = 32 \<and> length hmac = 32 \<and> length rq = 100
        \<and> compute_valid_software_state H m' = Inr valid_state
        \<and> compute_verifier_hmac H bo m' (generate_nonce rnd pos) = Inr hmac))
   \<and> object_bytes LittleEndian w = le_bytes w
   \<and> object_bytes BigEndian w = rev (le_bytes w)
   \<and> unat w = unat (le_bytes w ! 0) + 256 * unat (le_bytes w ! 1)
          + 65536 * unat (le_bytes w ! 2) + 16777216 * unat (le_bytes w ! 3)
   \<and> object_value bo (object_bytes bo w) = w
   \<and> (length c = 4 \<and> length d = 32 \<and> length n = 32 \<and> length p = 32 \<longrightarrow>
        prover_round H bo pm (c @ d @ n @ p @ rest) =
          (if object_value bo c \<le> C_P pm then
             Inr \<lparr>mem = pm, written = replicate 33 0, printed = Rejecting_request, line = rest\<rparr>
           else
             (case compute_prover_hmac H bo pm (object_value bo c) n of
                Inl f \<Rightarrow> Inl f
              | Inr expected_hmac \<Rightarrow>
                  (case memcmp p expected_hmac OUTPUT_SIZE of
                     Inl f \<Rightarrow> Inl f
                   | Inr x \<Rightarrow>
                       if x = 0 then
                         Inr \<lparr>mem = pm\<lparr>C_P := object_value bo c\<rparr>, written = 1 # expected_hmac,
                              printed = Attestation_SUCCESS, line = rest\<rparr>
                       else Inr \<lparr>mem = pm, written = [], printed = Attestation_FAILED,
                                 line = rest\<rparr>))))
   \<and> (\<forall>r. prover_round H bo pm l = Inr r \<longrightarrow> printed r \<noteq> Attestation_FAILED \<longrightarrow>
        (\<exists>pf. written r = (if printed r = Attestation_SUCCESS then 1 else 0) # pf
             \<and> length pf = 32 \<and> length (written r) = 33))
   \<and> (length pf = 32 \<longrightarrow>
        verifier_read_report (flag # pf @ rest')
          = Inr (if flag = 1 then Attestation_SUCCESSFUL else Report_FAILED, rest'))"
proof (intro conjI allI impI)
  fix m' rq
  assume a: "verifier_send_request H bo m rnd pos = Inr (m', rq)"
  from verifier_send_request_layout [OF a]
  obtain valid_state hmac where vs: "compute_valid_software_state H m' = Inr valid_state"
    and h: "compute_verifier_hmac H bo m' (generate_nonce rnd pos) = Inr hmac"
    and rq: "rq = object_bytes bo (C_V m') @ valid_state @ generate_nonce rnd pos @ hmac"
    by blast
  have "length (object_bytes bo (C_V m')) = 4" "length valid_state = 32"
    "length (generate_nonce rnd pos) = 32" "length hmac = 32"
    using compute_valid_software_state_length [OF vs] compute_verifier_hmac_length [OF h]
    by (simp_all add: length_object_bytes length_generate_nonce sizes)
  then show "\<exists>valid_state hmac.
          rq = object_bytes bo (C_V m') @ valid_state @ generate_nonce rnd pos @ hmac
        \<and> length (object_bytes bo (C_V m')) = 4 \<and> length valid_state = 32
        \<and> length (generate_nonce rnd pos) = 32 \<and> length hmac = 32 \<and> length rq = 100
        \<and> compute_valid_software_state H m' = Inr valid_state
        \<and> compute_verifier_hmac H bo m' (generate_nonce rnd pos) = Inr hmac"
    using vs h rq by auto
next
  show "object_bytes LittleEndian w = le_bytes w" "object_bytes BigEndian w = rev (le_bytes w)"
    by (simp_all add: object_bytes_def)
next
  show "unat w = unat (le_bytes w ! 0) + 256 * unat (le_bytes w ! 1)
          + 65536 * unat (le_bytes w ! 2) + 16777216 * unat (le_bytes w ! 3)"
    by (rule le_bytes_value)
next
  show "object_value bo (object_bytes bo w) = w"
    by (rule object_value_object_bytes)
next
  assume "length c = 4 \<and> length d = 32 \<and> length n = 32 \<and> length p = 32"
  then have "length c = COUNTER_SIZE" "length d = KEY_SIZE" "length n = NONCE_SIZE"
    "length p = OUTPUT_SIZE"
    by (simp_all add: sizes)
  from prover_round_parse [OF this, of H bo pm rest]
  show "prover_round H bo pm (c @ d @ n @ p @ rest) =
          (if object_value bo c \<le> C_P pm then
             Inr \<lparr>mem = pm, written = replicate 33 0, printed = Rejecting_request, line = rest\<rparr>
           else
             (case compute_prover_hmac H bo pm (object_value bo c) n of
                Inl f \<Rightarrow> Inl f
              | Inr expected_hmac \<Rightarrow>
                  (case memcmp p expected_hmac OUTPUT_SIZE of
                     Inl f \<Rightarrow> Inl f
                   | Inr x \<Rightarrow>
                       if x = 0 then
                         Inr \<lparr>mem = pm\<lparr>C_P := object_value bo c\<rparr>, written = 1 # expected_hmac,
                              printed = Attestation_SUCCESS, line = rest\<rparr>
                       else Inr \<lparr>mem = pm, written = [], printed = Attestation_FAILED,
                                 line = rest\<rparr>)))"
    by (simp add: OUTPUT_SIZE_def)
next
  fix r
  assume "prover_round H bo pm l = Inr r" and "printed r \<noteq> Attestation_FAILED"
  from prover_round_report [OF this]
  show "\<exists>pf. written r = (if printed r = Attestation_SUCCESS then 1 else 0) # pf
             \<and> length pf = 32 \<and> length (written r) = 33"
    by (auto simp: OUTPUT_SIZE_def)
next
  assume "length pf = 32"
  then have "length pf = OUTPUT_SIZE" by (simp add: OUTPUT_SIZE_def)
  then show "verifier_read_report (flag # pf @ rest')
          = Inr (if flag = 1 then Attestation_SUCCESSFUL else Report_FAILED, rest')"
    by (rule verifier_read_report_parse)
qed

theorem wire_layout_witness:
  "verifier_send_request demo_mac LittleEndian verifier_start demo_urandom 0
     = Inr (verifier_start\<lparr>C_V := 1\<rparr>, demo_request)
   \<and> length demo_request = 100
   \<and> take 4 demo_request = object_bytes LittleEndian 1
   \<and> object_value LittleEndian (object_bytes LittleEndian 1) = 1
   \<and> length [1, 0, 0, 0 :: u8] = 4 \<and> length (replicate 32 (144 :: u8)) = 32
   \<and> length (map of_nat [0 ..< 32] :: u8 list) = 32 \<and> length (replicate 32 (241 :: u8)) = 32
   \<and> prover_round demo_mac LittleEndian prover_start
        ([1, 0, 0, 0] @ replicate 32 144 @ map of_nat [0 ..< 32] @ replicate 32 241 @ [])
       = Inr \<lparr>mem = prover_start\<lparr>C_P := 1\<rparr>, written = 1 # replicate 32 241,
              printed = Attestation_SUCCESS, line = []\<rparr>
   \<and> length (1 # replicate 32 (241 :: u8)) = 33
   \<and> verifier_read_report (1 # replicate 32 241 @ []) = Inr (Attestation_SUCCESSFUL, [])"
proof -
  note t = wire_layout [where H = demo_mac and bo = LittleEndian and m = verifier_start
      and rnd = demo_urandom and pos = 0 and w = 1 and c = "[1, 0, 0, 0]"
      and d = "replicate 32 144" and n = "map of_nat [0 ..< 32]" and p = "replicate 32 241"
      and rest = "[]" and pm = prover_start and l = demo_request and flag = 1
      and pf = "replicate 32 241" and rest' = "[]"]
  from t demo_send obtain valid_state hmac
    where rq: "demo_request = object_bytes LittleEndian (C_V (verifier_start\<lparr>C_V := 1\<rparr>))
                 @ valid_state @ generate_nonce demo_urandom 0 @ hmac"
      and len: "length demo_request = 100"
      and lc: "length (object_bytes LittleEndian (C_V (verifier_start\<lparr>C_V := 1\<rparr>))) = 4"
    by blast
  have w2: "take 4 demo_request = object_bytes LittleEndian 1"
    using lc by (subst rq) simp
  from t have w3: "object_value LittleEndian (object_bytes LittleEndian 1) = 1"
    by blast
  have w4: "prover_round demo_mac LittleEndian prover_start
        ([1, 0, 0, 0] @ replicate 32 144 @ map of_nat [0 ..< 32] @ replicate 32 241 @ [])
       = Inr \<lparr>mem = prover_start\<lparr>C_P := 1\<rparr>, written = 1 # replicate 32 241,
              printed = Attestation_SUCCESS, line = []\<rparr>"
    using demo_accept by (simp add: demo_request_def)
  from t have w5: "verifier_read_report (1 # replicate 32 241 @ []) = Inr (Attestation_SUCCESSFUL, [])"
    by simp
  show ?thesis
    using demo_send len w2 w3 w4 w5 by simp
qed

text \<open>
  C9 as the claim states it fails on a big-endian host: the first request of a Verifier
  carries the counter 1 as \<open>0, 0, 0, 1\<close>, while the little-endian bytes of 1 are
  \<open>1, 0, 0, 0\<close>.
\<close>

theorem counter_bytes_follow_host:
  "verifier_send_request demo_mac BigEndian verifier_start demo_urandom 0
     = Inr (verifier_start\<lparr>C_V := 1\<rparr>,
            [0, 0, 0, 1] @ replicate 32 144 @ map of_nat [0 ..< 32] @ replicate 32 241)
   \<and> le_bytes (C_V (verifier_start\<lparr>C_V := 1\<rparr>)) = [1, 0, 0, 0]"
  using demo_send_big_endian by (simp add: le_bytes_def)

section \<open>Further properties of the rounds\<close>

text \<open>
  A round of the Prover returns whenever a whole request has arrived and the keyed
  digest fills its 32-byte output.
\<close>

theorem prover_round_returns:
  assumes "\<And>k d. length (H k d) = OUTPUT_SIZE"
    and "COUNTER_SIZE + KEY_SIZE + NONCE_SIZE + OUTPUT_SIZE \<le> length l"
  shows "\<exists>r. prover_round H bo m l = Inr r"
proof (cases "object_value bo (take COUNTER_SIZE l) \<le> C_P m")
  case True
  then show ?thesis by (simp add: prover_round_stale_line [OF assms(2)])
next
  case False
  then have fresh: "C_P m < object_value bo (take COUNTER_SIZE l)" by simp
  let ?p = "take OUTPUT_SIZE (drop (COUNTER_SIZE + KEY_SIZE + NONCE_SIZE) l)"
  obtain e where e: "compute_prover_hmac H bo m (object_value bo (take COUNTER_SIZE l))
      (take NONCE_SIZE (drop (COUNTER_SIZE + KEY_SIZE) l)) = Inr e" and le: "length e = OUTPUT_SIZE"
    using compute_prover_hmac_returns [of H bo m, OF assms(1)] by blast
  have lp: "length ?p = OUTPUT_SIZE" by (rule request_parts [OF assms(2)])
  obtain x where x: "memcmp ?p e OUTPUT_SIZE = Inr x"
    using memcmp_defined [OF eq_imp_le [OF lp [symmetric]] eq_imp_le [OF le [symmetric]]]
    by blast
  show ?thesis
    unfolding prover_round_fresh_line [OF assms(2) fresh] by (simp add: e x)
qed

theorem prover_round_returns_witness:
  "COUNTER_SIZE + KEY_SIZE + NONCE_SIZE + OUTPUT_SIZE \<le> length demo_request
   \<and> (\<exists>r. prover_round demo_mac LittleEndian prover_start demo_request = Inr r)"
proof -
  have h: "COUNTER_SIZE + KEY_SIZE + NONCE_SIZE + OUTPUT_SIZE \<le> length demo_request"
    by (simp add: sizes demo_request_def)
  show ?thesis
    using h prover_round_returns [of demo_mac demo_request LittleEndian prover_start,
        OF demo_mac_length h]
    by simp
qed

text \<open>
  With fewer than 100 bytes on the line the round never returns: the Prover waits in
  \<^verbatim>\<open>safe_uart_read\<close>, and a run ends there with nothing more written.
\<close>

theorem prover_round_blocks:
  assumes "length l < COUNTER_SIZE + KEY_SIZE + NONCE_SIZE + OUTPUT_SIZE"
  shows "prover_round H bo m l = Inl Blocked
       \<and> prover_loop H bo m l out pr = \<lparr>final = m, sent = out, prints = pr, stopped = Blocked\<rparr>"
  using prover_round_short [OF assms, of H bo m] by (subst prover_loop.simps) simp

theorem prover_round_blocks_witness:
  "length (replicate 99 (0 :: u8)) < COUNTER_SIZE + KEY_SIZE + NONCE_SIZE + OUTPUT_SIZE
   \<and> prover_round demo_mac LittleEndian prover_start (replicate 99 0) = Inl Blocked"
proof -
  have h: "length (replicate 99 (0 :: u8)) < COUNTER_SIZE + KEY_SIZE + NONCE_SIZE + OUTPUT_SIZE"
    by (simp add: sizes)
  show ?thesis
    using h prover_round_blocks [OF h, of demo_mac LittleEndian prover_start] by simp
qed

text \<open>
  A request sent by a Verifier that holds the same two keys, with a counter above
  \<^verbatim>\<open>C_P\<close>, is accepted: the Prover adopts the counter and answers with the flag 1 and
  the proof of the request.
\<close>

theorem fresh_request_accepted:
  assumes "\<And>k d. length (H k d) = OUTPUT_SIZE"
    and "Kauth p = Kauth v" and "Kattest p = Kattest v"
    and "verifier_send_request H bo v rnd pos = Inr (v', rq)"
    and "C_P p < C_V v'"
  shows "prover_round H bo p (rq @ rest) =
    Inr \<lparr>mem = p\<lparr>C_P := C_V v'\<rparr>,
         written = 1 # drop (COUNTER_SIZE + KEY_SIZE + NONCE_SIZE) rq,
         printed = Attestation_SUCCESS, line = rest\<rparr>"
proof -
  from verifier_send_request_layout [OF assms(4)]
  obtain valid_state hmac where v': "v' = v\<lparr>C_V := C_V v + 1\<rparr>"
    and vs: "compute_valid_software_state H v' = Inr valid_state"
    and h: "compute_verifier_hmac H bo v' (generate_nonce rnd pos) = Inr hmac"
    and rq: "rq = object_bytes bo (C_V v') @ valid_state @ generate_nonce rnd pos @ hmac"
    by blast
  have l: "length (object_bytes bo (C_V v')) = COUNTER_SIZE" "length valid_state = KEY_SIZE"
    "length (generate_nonce rnd pos) = NONCE_SIZE" "length hmac = OUTPUT_SIZE"
    using compute_valid_software_state_length [OF vs] compute_verifier_hmac_length [OF h]
    by (simp_all add: length_object_bytes length_generate_nonce sizes)
  have fresh: "C_P p < object_value bo (object_bytes bo (C_V v'))"
    using assms(5) by (simp add: object_value_object_bytes)
  have "compute_prover_hmac H bo p (C_V v') (generate_nonce rnd pos)
          = compute_verifier_hmac H bo v' (generate_nonce rnd pos)"
    by (rule compute_hmac_same) (simp_all add: v' assms(2,3))
  then have e: "compute_prover_hmac H bo p (C_V v') (generate_nonce rnd pos) = Inr hmac"
    using h by simp
  have same: "memcmp hmac hmac OUTPUT_SIZE = Inr 0"
    by (rule memcmp_same) (rule eq_imp_le [OF l(4) [symmetric]])
  have d: "drop (COUNTER_SIZE + KEY_SIZE + NONCE_SIZE) rq = hmac"
    using l by (simp add: rq)
  have "prover_round H bo p
          (object_bytes bo (C_V v') @ valid_state @ generate_nonce rnd pos @ hmac @ rest) =
    Inr \<lparr>mem = p\<lparr>C_P := C_V v'\<rparr>, written = 1 # hmac,
         printed = Attestation_SUCCESS, line = rest\<rparr>"
    unfolding prover_round_fresh [OF l fresh] by (simp add: e same object_value_object_bytes)
  then show ?thesis
    unfolding d by (simp add: rq)
qed

theorem fresh_request_accepted_witness:
  "Kauth prover_start = Kauth verifier_start \<and> Kattest prover_start = Kattest verifier_start
   \<and> verifier_send_request demo_mac LittleEndian verifier_start demo_urandom 0
       = Inr (verifier_start\<lparr>C_V := 1\<rparr>, demo_request)
   \<and> C_P prover_start < C_V (verifier_start\<lparr>C_V := 1\<rparr>)
   \<and> prover_round demo_mac LittleEndian prover_start (demo_request @ [])
       = Inr \<lparr>mem = prover_start\<lparr>C_P := C_V (verifier_start\<lparr>C_V := 1\<rparr>)\<rparr>,
              written = 1 # drop (COUNTER_SIZE + KEY_SIZE + NONCE_SIZE) demo_request,
              printed = Attestation_SUCCESS, line = []\<rparr>"
proof -
  have h1: "Kauth prover_start = Kauth verifier_start"
    and h2: "Kattest prover_start = Kattest verifier_start"
    by (simp_all add: prover_start_def verifier_start_def)
  have h3: "C_P prover_start < C_V (verifier_start\<lparr>C_V := 1\<rparr>)"
    by (simp add: prover_start_def)
  show ?thesis
    using h1 h2 h3 demo_send
      fresh_request_accepted [of demo_mac prover_start verifier_start LittleEndian demo_urandom 0
        "verifier_start\<lparr>C_V := 1\<rparr>" demo_request "[]", OF demo_mac_length h1 h2 demo_send h3]
    by simp
qed

text \<open>
  A request that has been accepted is rejected when it arrives again: the report is
  33 zero bytes and the memory stays as the first round left it.
\<close>

theorem replayed_request_rejected:
  assumes "prover_round H bo m (rq @ rest) = Inr r" and "printed r = Attestation_SUCCESS"
    and "length rq = COUNTER_SIZE + KEY_SIZE + NONCE_SIZE + OUTPUT_SIZE"
  shows "prover_round H bo (mem r) (rq @ rest') =
    Inr \<lparr>mem = mem r, written = replicate 33 0, printed = Rejecting_request, line = rest'\<rparr>"
proof -
  from prover_round_cases [OF assms(1)] assms(2,3)
  have "C_P (mem r) = object_value bo (take COUNTER_SIZE rq)"
    by (auto simp: sizes)
  then have "object_value bo (take COUNTER_SIZE (rq @ rest')) \<le> C_P (mem r)"
    using assms(3) by (simp add: sizes)
  moreover have "COUNTER_SIZE + KEY_SIZE + NONCE_SIZE + OUTPUT_SIZE \<le> length (rq @ rest')"
    using assms(3) by simp
  ultimately show ?thesis
    using prover_round_stale_line [of "rq @ rest'" bo "mem r" H] assms(3)
    by (simp add: OUTPUT_SIZE_def)
qed

theorem replayed_request_rejected_witness:
  "prover_round demo_mac LittleEndian prover_start (demo_request @ [])
     = Inr \<lparr>mem = prover_start\<lparr>C_P := 1\<rparr>, written = 1 # replicate 32 241,
            printed = Attestation_SUCCESS, line = []\<rparr>
   \<and> length demo_request = COUNTER_SIZE + KEY_SIZE + NONCE_SIZE + OUTPUT_SIZE
   \<and> prover_round demo_mac LittleEndian (prover_start\<lparr>C_P := 1\<rparr>) (demo_request @ [])
     = Inr \<lparr>mem = prover_start\<lparr>C_P := 1\<rparr>, written = replicate 33 0,
            printed = Rejecting_request, line = []\<rparr>"
proof -
  have a: "prover_round demo_mac LittleEndian prover_start (demo_request @ [])
     = Inr \<lparr>mem = prover_start\<lparr>C_P := 1\<rparr>, written = 1 # replicate 32 241,
            printed = Attestation_SUCCESS, line = []\<rparr>"
    using demo_accept by simp
  have l: "length demo_request = COUNTER_SIZE + KEY_SIZE + NONCE_SIZE + OUTPUT_SIZE"
    by (simp add: sizes demo_request_def)
  show ?thesis
    using a l replayed_request_rejected [OF a _ l, of "[]"] by simp
qed

text \<open>
  A fresh request whose 32 proof bytes are not the expected HMAC: the round prints
  \<^verbatim>\<open>Attestation FAILED\<close>, leaves the memory as it was and writes nothing.
\<close>

lemma prover_round_mismatch:
  assumes "COUNTER_SIZE + KEY_SIZE + NONCE_SIZE + OUTPUT_SIZE \<le> length l"
    and "C_P m < object_value bo (take COUNTER_SIZE l)"
    and "compute_prover_hmac H bo m (object_value bo (take COUNTER_SIZE l))
           (take NONCE_SIZE (drop (COUNTER_SIZE + KEY_SIZE) l)) = Inr expected_hmac"
    and "take OUTPUT_SIZE (drop (COUNTER_SIZE + KEY_SIZE + NONCE_SIZE) l) \<noteq> expected_hmac"
  shows "prover_round H bo m l =
     Inr \<lparr>mem = m, written = [], printed = Attestation_FAILED,
          line = drop (COUNTER_SIZE + KEY_SIZE + NONCE_SIZE + OUTPUT_SIZE) l\<rparr>"
proof -
  let ?p = "take OUTPUT_SIZE (drop (COUNTER_SIZE + KEY_SIZE + NONCE_SIZE) l)"
  have lp: "length ?p = OUTPUT_SIZE" by (rule request_parts [OF assms(1)])
  have le: "length expected_hmac = OUTPUT_SIZE"
    using assms(3) by (rule compute_prover_hmac_length)
  obtain x where x: "memcmp ?p expected_hmac OUTPUT_SIZE = Inr x"
    using memcmp_defined [OF eq_imp_le [OF lp [symmetric]] eq_imp_le [OF le [symmetric]]]
    by blast
  have "x \<noteq> 0"
  proof
    assume "x = 0"
    with x have "take OUTPUT_SIZE ?p = take OUTPUT_SIZE expected_hmac"
      by (intro memcmp_zero) simp
    with lp le assms(4) show False by simp
  qed
  then show ?thesis
    unfolding prover_round_fresh_line [OF assms(1,2)] by (simp add: assms(3) x)
qed

theorem prover_round_mismatch_witness:
  "COUNTER_SIZE + KEY_SIZE + NONCE_SIZE + OUTPUT_SIZE \<le> length ([1, 0, 0, 0] @ replicate 96 (0 :: u8))
   \<and> C_P prover_start < object_value LittleEndian (take COUNTER_SIZE ([1, 0, 0, 0] @ replicate 96 0))
   \<and> compute_prover_hmac demo_mac LittleEndian prover_start
        (object_value LittleEndian (take COUNTER_SIZE ([1, 0, 0, 0] @ replicate 96 0)))
        (take NONCE_SIZE (drop (COUNTER_SIZE + KEY_SIZE) ([1, 0, 0, 0] @ replicate 96 0)))
       = Inr (replicate 32 1)
   \<and> take OUTPUT_SIZE (drop (COUNTER_SIZE + KEY_SIZE + NONCE_SIZE) ([1, 0, 0, 0] @ replicate 96 0))
       \<noteq> replicate 32 (1 :: u8)
   \<and> prover_round demo_mac LittleEndian prover_start ([1, 0, 0, 0] @ replicate 96 0)
       = Inr \<lparr>mem = prover_start, written = [], printed = Attestation_FAILED, line = []\<rparr>"
proof -
  let ?l = "[1, 0, 0, 0] @ replicate 96 (0 :: u8)"
  have h1: "COUNTER_SIZE + KEY_SIZE + NONCE_SIZE + OUTPUT_SIZE \<le> length ?l"
    by (simp add: sizes)
  have h2: "C_P prover_start < object_value LittleEndian (take COUNTER_SIZE ?l)"
    by (simp add: sizes object_value_def le_value_def prover_start_def)
  have h3: "compute_prover_hmac demo_mac LittleEndian prover_start
        (object_value LittleEndian (take COUNTER_SIZE ?l))
        (take NONCE_SIZE (drop (COUNTER_SIZE + KEY_SIZE) ?l)) = Inr (replicate 32 1)"
    by code_simp
  have h4: "take OUTPUT_SIZE (drop (COUNTER_SIZE + KEY_SIZE + NONCE_SIZE) ?l) \<noteq> replicate 32 (1 :: u8)"
    by code_simp
  show ?thesis
    using h1 h2 h3 h4 prover_round_mismatch [OF h1 h2 h3 h4] by (simp add: sizes)
qed

text \<open>
  On buffers of at least \<open>n\<close> bytes \<^verbatim>\<open>memcmp\<close> returns a value, and the value is 0
  exactly when the first \<open>n\<close> bytes are the same.
\<close>

theorem memcmp_zero_iff:
  assumes "n \<le> length xs" and "n \<le> length ys"
  shows "(\<exists>c. memcmp xs ys n = Inr c) \<and> (memcmp xs ys n = Inr 0) = (take n xs = take n ys)"
  using memcmp_defined [OF assms] memcmp_zero [of xs ys n] memcmp_take_eq [OF assms] by blast

theorem memcmp_zero_iff_witness:
  "(2 :: nat) \<le> length [1, 2, 3 :: u8] \<and> (2 :: nat) \<le> length [1, 2, 4 :: u8]
   \<and> memcmp [1, 2, 3] [1, 2, 4] 2 = Inr 0 \<and> take 2 [1, 2, 3 :: u8] = take 2 [1, 2, 4]
   \<and> memcmp [1, 2, 3] [1, 2, 4] 3 = Inr (- 1)"
proof -
  have h: "(2 :: nat) \<le> length [1, 2, 3 :: u8]" "(2 :: nat) \<le> length [1, 2, 4 :: u8]"
    by simp_all
  have t: "take 2 [1, 2, 3 :: u8] = take 2 [1, 2, 4]"
    by simp
  have "memcmp [1, 2, 3] [1, 2, 4] 3 = Inr (- 1)"
    by code_simp
  then show ?thesis
    using h t memcmp_zero_iff [OF h] by simp
qed

end
